theory Spec2Isabelle
  imports Main
begin

section \<open>Glowroot trace extractor: the model\<close>

text \<open>
  The development follows \<^verbatim>\<open>glowroot_trace_extractor.py\<close>. Two kinds of strings occur.
  Program constants (script ids, output keys, paths) are ASCII and are kept as
  \<^typ>\<open>string\<close>. Document text is arbitrary Python \<^verbatim>\<open>str\<close> data and is a list of
  Unicode code points; \<open>lit\<close> turns an ASCII literal into such a list (it is also the
  latin-1 decoding of a byte string, one code point per byte).
\<close>

type_synonym pystr = "nat list"

definition lit :: "string \<Rightarrow> pystr" where
  "lit s = map of_char s"

text \<open>
  \<^verbatim>\<open>str.isspace\<close> on one character; \<^verbatim>\<open>str.strip()\<close> and the regular expression class
  \<^verbatim>\<open>\s\<close> (on \<^verbatim>\<open>str\<close> patterns) both use it: TAB..CR, FS..US, space, NEL, NBSP,
  U+1680, U+2000..U+200A, U+2028, U+2029, U+202F, U+205F, U+3000.
\<close>

definition isspace :: "nat \<Rightarrow> bool" where
  "isspace c \<longleftrightarrow>
     (9 \<le> c \<and> c \<le> 13) \<or> (28 \<le> c \<and> c \<le> 32) \<or> c = 133 \<or> c = 160 \<or> c = 5760 \<or>
     (8192 \<le> c \<and> c \<le> 8202) \<or> c = 8232 \<or> c = 8233 \<or> c = 8239 \<or> c = 8287 \<or> c = 12288"

definition strip :: "pystr \<Rightarrow> pystr" where
  "strip s = rev (dropWhile isspace (rev (dropWhile isspace s)))"

subsection \<open>The regular expressions of the source\<close>

text \<open>
  The two patterns of \<^verbatim>\<open>_extract_json_from_html\<close> are kept as regular expressions and run
  by a backtracking matcher with the priorities of Python's \<^verbatim>\<open>re\<close>: alternatives left to
  right, a greedy repetition longest first, a lazy one shortest first. Only the constructs
  the two patterns use are present; repetition is over a single character class, as in the
  source.

  Under \<^verbatim>\<open>re.IGNORECASE\<close> an ASCII letter of the pattern matches its two ASCII forms and,
  as the \<^verbatim>\<open>re\<close> documentation lists, U+0130 and U+0131 for \<open>i\<close>, U+017F for \<open>s\<close> and
  U+212A for \<open>k\<close>; any other pattern character matches itself only.
\<close>

datatype atom = Exact char | NoCase char | Space | NotChar char | AnyChar

definition ascii_lower :: "nat \<Rightarrow> nat" where
  "ascii_lower c = (if 65 \<le> c \<and> c \<le> 90 then c + 32 else c)"

definition nocase_match :: "char \<Rightarrow> nat \<Rightarrow> bool" where
  "nocase_match p c \<longleftrightarrow>
     (let l = ascii_lower (of_char p)
      in ascii_lower c = l \<or> (l = 105 \<and> (c = 304 \<or> c = 305)) \<or> (l = 115 \<and> c = 383) \<or>
         (l = 107 \<and> c = 8490))"

fun atom_match :: "atom \<Rightarrow> nat \<Rightarrow> bool" where
  "atom_match (Exact p) c \<longleftrightarrow> c = of_char p"
| "atom_match (NoCase p) c \<longleftrightarrow> nocase_match p c"
| "atom_match Space c \<longleftrightarrow> isspace c"
| "atom_match (NotChar p) c \<longleftrightarrow> c \<noteq> of_char p"
| "atom_match AnyChar c \<longleftrightarrow> True"

datatype regex =
    Atom atom
  | Cat regex regex
  | Alt regex regex
  | Star atom
  | Plus atom
  | LazyStar atom
  | Group regex
  | Lookahead regex
  | Dollar
  | Empty

text \<open>
  A match in progress: the text still to be read, and the text of group 1 once the group
  has been closed.
\<close>

record mstate =
  rest :: pystr
  group1 :: "pystr option"

fun greedy :: "atom \<Rightarrow> pystr \<Rightarrow> (pystr \<Rightarrow> 'r option) \<Rightarrow> 'r option" where
  "greedy a [] k = k []"
| "greedy a (c # cs) k =
     (if atom_match a c
      then (case greedy a cs k of Some r \<Rightarrow> Some r | None \<Rightarrow> k (c # cs))
      else k (c # cs))"

fun lazy :: "atom \<Rightarrow> pystr \<Rightarrow> (pystr \<Rightarrow> 'r option) \<Rightarrow> 'r option" where
  "lazy a [] k = k []"
| "lazy a (c # cs) k =
     (case k (c # cs) of
        Some r \<Rightarrow> Some r
      | None \<Rightarrow> if atom_match a c then lazy a cs k else None)"

text \<open>
  \<open>bt r st k\<close> matches \<open>r\<close> at the front of \<open>rest st\<close> and hands every way of doing so, in
  priority order, to the continuation \<open>k\<close> until one succeeds. \<^verbatim>\<open>$\<close> (no
  \<^verbatim>\<open>re.MULTILINE\<close>) holds at the end of the text and just before a final newline.
\<close>

fun bt :: "regex \<Rightarrow> mstate \<Rightarrow> (mstate \<Rightarrow> mstate option) \<Rightarrow> mstate option" where
  "bt (Atom a) st k =
     (case rest st of
        [] \<Rightarrow> None
      | c # cs \<Rightarrow> if atom_match a c then k (st\<lparr>rest := cs\<rparr>) else None)"
| "bt (Cat r1 r2) st k = bt r1 st (\<lambda>st'. bt r2 st' k)"
| "bt (Alt r1 r2) st k = (case bt r1 st k of Some m \<Rightarrow> Some m | None \<Rightarrow> bt r2 st k)"
| "bt (Star a) st k = greedy a (rest st) (\<lambda>s. k (st\<lparr>rest := s\<rparr>))"
| "bt (Plus a) st k =
     (case rest st of
        [] \<Rightarrow> None
      | c # cs \<Rightarrow> if atom_match a c then greedy a cs (\<lambda>s. k (st\<lparr>rest := s\<rparr>)) else None)"
| "bt (LazyStar a) st k = lazy a (rest st) (\<lambda>s. k (st\<lparr>rest := s\<rparr>))"
| "bt (Group r) st k =
     bt r st (\<lambda>st'. k (st'\<lparr>group1 :=
        Some (take (length (rest st) - length (rest st')) (rest st))\<rparr>))"
| "bt (Lookahead r) st k = (case bt r st Some of None \<Rightarrow> None | Some _ \<Rightarrow> k st)"
| "bt Dollar st k = (if rest st = [] \<or> rest st = [10] then k st else None)"
| "bt Empty st k = k st"

definition match_at :: "regex \<Rightarrow> pystr \<Rightarrow> mstate option" where
  "match_at r s = bt r \<lparr>rest = s, group1 = None\<rparr> Some"

text \<open>\<^verbatim>\<open>re.search\<close>: the match at the leftmost position that has one.\<close>

fun re_search :: "regex \<Rightarrow> pystr \<Rightarrow> mstate option" where
  "re_search r [] = match_at r []"
| "re_search r (c # cs) =
     (case match_at r (c # cs) of Some m \<Rightarrow> Some m | None \<Rightarrow> re_search r cs)"

text \<open>
  \<^verbatim>\<open>re.sub(pattern, '', s)\<close>: every match, found left to right, is removed. After a match
  the scan goes on behind it; where nothing (or only the empty string) matches, one
  character is copied.
\<close>

fun re_sub_empty :: "regex \<Rightarrow> pystr \<Rightarrow> pystr" where
  "re_sub_empty r [] = []"
| "re_sub_empty r (c # cs) =
     (case match_at r (c # cs) of
        None \<Rightarrow> c # re_sub_empty r cs
      | Some m \<Rightarrow>
          if length (rest m) < length (c # cs) then re_sub_empty r (rest m)
          else c # re_sub_empty r cs)"

definition cat :: "regex list \<Rightarrow> regex" where
  "cat rs = foldr Cat rs Empty"

definition nocase :: "string \<Rightarrow> regex" where
  "nocase w = cat (map (\<lambda>c. Atom (NoCase c)) w)"

definition exact :: "string \<Rightarrow> regex" where
  "exact w = cat (map (\<lambda>c. Atom (Exact c)) w)"

text \<open>
  \<^verbatim>\<open><script\s+type="text/json"\s+id="{script_id}"[^>]*>(.*?)(?=<script|</body>|$)\<close>
  with \<^verbatim>\<open>re.DOTALL | re.IGNORECASE\<close>. The script id is pasted into the pattern; the six
  ids of the program consist of letters, so it stands for itself.
\<close>

definition open_pattern :: "string \<Rightarrow> regex" where
  \<open>open_pattern script_id =
     cat [nocase ''<script'', Plus Space, nocase ''type="text/json"'', Plus Space,
          nocase (''id="'' @ script_id @ ''"''), Star (NotChar CHR ''>''),
          Atom (NoCase CHR ''>''), Group (LazyStar AnyChar),
          Lookahead (Alt (nocase ''<script'') (Alt (nocase ''</body>'') Dollar))]\<close>

text \<open>\<^verbatim>\<open></script>.*$\<close> with \<^verbatim>\<open>re.DOTALL\<close> only: this one is case-sensitive.\<close>

definition close_pattern :: regex where
  "close_pattern = cat [exact ''</script>'', Star AnyChar, Dollar]"

text \<open>
  What the loop body finds for one script id: no match, a match whose cleaned content is
  empty, or the cleaned content. \<open>group m\<close> is \<^verbatim>\<open>match.group(1)\<close>; group 1 has taken part
  in every match of the opening pattern (lemma \<open>open_pattern_group\<close>), so the case \<open>None\<close>
  does not arise.
\<close>

datatype span = NotFound | FoundEmpty | Content pystr

definition group :: "mstate \<Rightarrow> pystr" where
  "group m = (case group1 m of Some g \<Rightarrow> g | None \<Rightarrow> [])"

definition marker_content :: "pystr \<Rightarrow> string \<Rightarrow> span" where
  "marker_content html_content script_id =
     (case re_search (open_pattern script_id) html_content of
        None \<Rightarrow> NotFound
      | Some m \<Rightarrow>
          (let content = strip (group m);
               content = re_sub_empty close_pattern content;
               content = strip content
           in if content \<noteq> [] then Content content else FoundEmpty))"

subsection \<open>Output keys\<close>

text \<open>
  \<^verbatim>\<open>str.isupper\<close> and \<^verbatim>\<open>str.lower\<close> on one ASCII character, which is all a script id
  holds.
\<close>

definition isupper :: "char \<Rightarrow> bool" where
  "isupper c \<longleftrightarrow> 65 \<le> (of_char c :: nat) \<and> (of_char c :: nat) \<le> 90"

definition lower :: "char \<Rightarrow> char" where
  "lower c = (if isupper c then char_of ((of_char c :: nat) + 32) else c)"

text \<open>The loop of \<^verbatim>\<open>_camel_to_snake\<close>; \<open>i\<close> is the index \<^verbatim>\<open>enumerate\<close> supplies.\<close>

fun camel_loop :: "nat \<Rightarrow> string \<Rightarrow> string" where
  "camel_loop i [] = []"
| "camel_loop i (c # cs) =
     (if isupper c \<and> i > 0 then ''_'' else []) @ [lower c] @ camel_loop (Suc i) cs"

definition camel_to_snake :: "string \<Rightarrow> string" where
  "camel_to_snake camel_str = camel_loop 0 camel_str"

text \<open>
  \<^verbatim>\<open>str.replace(old, new)\<close>: every occurrence of \<open>old\<close>, found left to right without
  overlap, is replaced. (For an empty \<open>old\<close> Python puts \<open>new\<close> around every character.)
\<close>

function replace :: "string \<Rightarrow> string \<Rightarrow> string \<Rightarrow> string" where
  "replace old new [] = (if old = [] then new else [])"
| "replace old new (c # cs) =
     (if old = [] then new @ c # replace old new cs
      else if take (length old) (c # cs) = old
      then new @ replace old new (drop (length old) (c # cs))
      else c # replace old new cs)"
  by pat_completeness auto
termination
  by (relation "measure (\<lambda>(old, new, s). length s)") auto

definition output_key :: "string \<Rightarrow> string" where
  "output_key script_id = camel_to_snake (replace ''Json'' [] script_id)"

subsection \<open>The extraction loop\<close>

definition JSON_SCRIPT_IDS :: "string list" where
  "JSON_SCRIPT_IDS =
     [''headerJson'', ''entriesJson'', ''queriesJson'', ''sharedQueryTextsJson'',
      ''mainThreadProfileJson'', ''auxThreadProfileJson'']"

record metadata =
  source_file :: string
  source_path :: string
  extraction_time :: string
  tool_version :: string
  extracted_scripts :: "string list"

text \<open>
  The values a result dictionary holds: what \<^verbatim>\<open>json.loads\<close> returned, the raw text of a
  span that did not decode, or the metadata record. A Python \<^verbatim>\<open>dict\<close> keeps its keys in
  insertion order; assigning to a key that is present keeps its place.
\<close>

datatype 'v pyval = Json 'v | Raw pystr | Meta metadata

type_synonym 'v dict = "(string \<times> 'v pyval) list"

fun dict_set :: "'v dict \<Rightarrow> string \<Rightarrow> 'v pyval \<Rightarrow> 'v dict" where
  "dict_set [] k v = [(k, v)]"
| "dict_set ((k', v') # d) k v = (if k' = k then (k, v) # d else (k', v') # dict_set d k v)"

definition dict_get :: "'v dict \<Rightarrow> string \<Rightarrow> 'v pyval option" where
  "dict_get d k = map_of d k"

definition keys :: "'v dict \<Rightarrow> string list" where
  "keys d = map fst d"

text \<open>
  \<^verbatim>\<open>json.loads\<close> belongs to the standard library and is a parameter \<open>loads\<close>: \<open>Some v\<close> is
  the decoded value, \<open>None\<close> is \<^verbatim>\<open>json.JSONDecodeError\<close>, the one exception its contract
  names for text that is not JSON and the one the loop catches. The lines printed for each
  marker are not modelled.
\<close>

definition extract_marker :: "(pystr \<Rightarrow> 'v option) \<Rightarrow> pystr \<Rightarrow> 'v dict \<Rightarrow> string \<Rightarrow> 'v dict" where
  "extract_marker loads html_content extracted script_id =
     (case marker_content html_content script_id of
        NotFound \<Rightarrow> extracted
      | FoundEmpty \<Rightarrow> extracted
      | Content content \<Rightarrow>
          (case loads content of
             Some json_data \<Rightarrow> dict_set extracted (output_key script_id) (Json json_data)
           | None \<Rightarrow> dict_set extracted (output_key script_id @ ''_raw'') (Raw content)))"

fun extract_markers :: "(pystr \<Rightarrow> 'v option) \<Rightarrow> pystr \<Rightarrow> 'v dict \<Rightarrow> string list \<Rightarrow> 'v dict" where
  "extract_markers loads html_content extracted [] = extracted"
| "extract_markers loads html_content extracted (script_id # ids) =
     extract_markers loads html_content
       (extract_marker loads html_content extracted script_id) ids"

definition extract_json_from_html :: "(pystr \<Rightarrow> 'v option) \<Rightarrow> pystr \<Rightarrow> 'v dict" where
  "extract_json_from_html loads html_content =
     extract_markers loads html_content [] JSON_SCRIPT_IDS"

subsection \<open>Reading the input file\<close>

text \<open>
  The file system is a snapshot: what a path resolves to, a file with its bytes (a
  \<^typ>\<open>char\<close> is a byte), a directory, or nothing. \<^verbatim>\<open>Path.exists\<close> holds for files and
  directories alike. The operations the program asks of the system are recorded in order.
\<close>

datatype node = File string | Directory

datatype encoding = UTF8 | Latin1

datatype io = Exists string | OpenRead string encoding | MakeDirs string | WriteFile string pystr

datatype exn = FileNotFoundError string | IsADirectoryError string | KeyError string

record env =
  files :: "string \<Rightarrow> node option"
  clock :: string
  path_name :: "string \<Rightarrow> string"
  path_absolute :: "string \<Rightarrow> string"

text \<open>
  The strict \<^verbatim>\<open>utf-8\<close> codec: shortest forms only, no surrogates, nothing above U+10FFFF;
  \<open>None\<close> is \<^verbatim>\<open>UnicodeDecodeError\<close>. The \<^verbatim>\<open>latin-1\<close> codec maps each byte to the code
  point of the same number and never fails.
\<close>

definition utf8_cont :: "nat \<Rightarrow> bool" where
  "utf8_cont b \<longleftrightarrow> 128 \<le> b \<and> b < 192"

fun utf8_decode :: "nat list \<Rightarrow> pystr option" where
  "utf8_decode [] = Some []"
| "utf8_decode (b # bs) =
     (if b < 128 then map_option (Cons b) (utf8_decode bs)
      else if 194 \<le> b \<and> b < 224 then
        (case bs of
           b1 # r \<Rightarrow>
             if utf8_cont b1
             then map_option (Cons ((b - 192) * 64 + (b1 - 128))) (utf8_decode r)
             else None
         | _ \<Rightarrow> None)
      else if 224 \<le> b \<and> b < 240 then
        (case bs of
           b1 # b2 # r \<Rightarrow>
             (let cp = (b - 224) * 4096 + (b1 - 128) * 64 + (b2 - 128)
              in if utf8_cont b1 \<and> utf8_cont b2 \<and> 2048 \<le> cp \<and> \<not> (55296 \<le> cp \<and> cp < 57344)
                 then map_option (Cons cp) (utf8_decode r)
                 else None)
         | _ \<Rightarrow> None)
      else if 240 \<le> b \<and> b < 245 then
        (case bs of
           b1 # b2 # b3 # r \<Rightarrow>
             (let cp = (b - 240) * 262144 + (b1 - 128) * 4096 + (b2 - 128) * 64 + (b3 - 128)
              in if utf8_cont b1 \<and> utf8_cont b2 \<and> utf8_cont b3 \<and> 65536 \<le> cp \<and> cp < 1114112
                 then map_option (Cons cp) (utf8_decode r)
                 else None)
         | _ \<Rightarrow> None)
      else None)"

definition latin1_decode :: "nat list \<Rightarrow> pystr" where
  "latin1_decode bs = bs"

text \<open>
  A file opened in text mode with the default \<^verbatim>\<open>newline\<close> hands \<^verbatim>\<open>\r\n\<close> and \<^verbatim>\<open>\r\<close>
  over as \<^verbatim>\<open>\n\<close>.
\<close>

fun universal_newlines :: "pystr \<Rightarrow> pystr" where
  "universal_newlines [] = []"
| "universal_newlines [c] = [if c = 13 then 10 else c]"
| "universal_newlines (c # d # r) =
     (if c = 13 \<and> d = 10 then 10 # universal_newlines r
      else if c = 13 then 10 # universal_newlines (d # r)
      else c # universal_newlines (d # r))"

definition version :: string where
  "version = ''1.0.0''"

text \<open>
  The result of \<^verbatim>\<open>extract_from_file\<close> once the text is read: the metadata under its own
  key, then the extracted entries (\<^verbatim>\<open>{'extraction_metadata': ..., **extracted_data}\<close>).
\<close>

definition combine :: "env \<Rightarrow> string \<Rightarrow> 'v dict \<Rightarrow> 'v dict" where
  "combine e html_file_path extracted_data =
     foldl (\<lambda>d (k, v). dict_set d k v)
       [(''extraction_metadata'',
         Meta \<lparr>source_file = path_name e html_file_path,
               source_path = path_absolute e html_file_path,
               extraction_time = clock e,
               tool_version = version,
               extracted_scripts = keys extracted_data\<rparr>)]
       extracted_data"

definition extract_from_file ::
    "(pystr \<Rightarrow> 'v option) \<Rightarrow> env \<Rightarrow> string \<Rightarrow> io list \<times> (exn + 'v dict)" where
  "extract_from_file loads e html_file_path =
     (case files e html_file_path of
        None \<Rightarrow> ([Exists html_file_path], Inl (FileNotFoundError html_file_path))
      | Some Directory \<Rightarrow>
          ([Exists html_file_path, OpenRead html_file_path UTF8],
           Inl (IsADirectoryError html_file_path))
      | Some (File bytes) \<Rightarrow>
          (case utf8_decode (map of_char bytes) of
             Some html_content \<Rightarrow>
               ([Exists html_file_path, OpenRead html_file_path UTF8],
                Inr (combine e html_file_path
                       (extract_json_from_html loads (universal_newlines html_content))))
           | None \<Rightarrow>
               ([Exists html_file_path, OpenRead html_file_path UTF8,
                 OpenRead html_file_path Latin1],
                Inr (combine e html_file_path
                       (extract_json_from_html loads
                          (universal_newlines (latin1_decode (map of_char bytes))))))))"

subsection \<open>Writing the output and the command line\<close>








section \<open>The specification's wording\<close>

text \<open>
  Definitions that follow the sentences of the specification, to be compared with the
  definitions above, which follow the source.
\<close>

subsection \<open>Key normalisation as the specification words it\<close>

text \<open>
  Strip the suffix \<open>Json\<close> from the identifier; insert a separator before every uppercase
  letter that is not the first character; then lowercase everything.
\<close>

definition strip_json_suffix :: "string \<Rightarrow> string" where
  "strip_json_suffix s =
     (if 4 \<le> length s \<and> drop (length s - 4) s = ''Json'' then take (length s - 4) s else s)"

definition separate_words :: "string \<Rightarrow> string" where
  "separate_words s =
     (case s of
        [] \<Rightarrow> []
      | c # cs \<Rightarrow> c # concat (map (\<lambda>x. if isupper x then [CHR ''_'', x] else [x]) cs))"

definition normalized_key :: "string \<Rightarrow> string" where
  "normalized_key script_id = map lower (separate_words (strip_json_suffix script_id))"

subsection \<open>The marker span as the specification words it\<close>

text \<open>
  The text begins with a word, letters compared without regard to case.
\<close>

fun starts_nocase :: "string \<Rightarrow> pystr \<Rightarrow> bool" where
  "starts_nocase [] s \<longleftrightarrow> True"
| "starts_nocase (p # ps) [] \<longleftrightarrow> False"
| "starts_nocase (p # ps) (c # cs) \<longleftrightarrow> nocase_match p c \<and> starts_nocase ps cs"

definition skip_word :: "string \<Rightarrow> pystr \<Rightarrow> pystr option" where
  "skip_word w s = (if starts_nocase w s then Some (drop (length w) s) else None)"

definition skip_spaces :: "pystr \<Rightarrow> pystr option" where
  "skip_spaces s =
     (case s of [] \<Rightarrow> None | c # cs \<Rightarrow> if isspace c then Some (dropWhile isspace cs) else None)"

definition skip_to_tag_end :: "pystr \<Rightarrow> pystr option" where
  "skip_to_tag_end s =
     (case dropWhile (\<lambda>c. c \<noteq> of_char CHR ''>'') s of [] \<Rightarrow> None | c # cs \<Rightarrow> Some cs)"

text \<open>
  An opening marker for an identifier at the front of a text: the tag name \<open>script\<close>,
  whitespace, the type attribute, whitespace, the id attribute, anything up to the closing
  \<open>>\<close>. The result is the text just after the marker.
\<close>

definition after_opening_marker :: "string \<Rightarrow> pystr \<Rightarrow> pystr option" where
  \<open>after_opening_marker script_id s =
     Option.bind (skip_word ''<script'' s) (\<lambda>s.
     Option.bind (skip_spaces s) (\<lambda>s.
     Option.bind (skip_word ''type="text/json"'' s) (\<lambda>s.
     Option.bind (skip_spaces s) (\<lambda>s.
     Option.bind (skip_word (''id="'' @ script_id @ ''"'') s) skip_to_tag_end))))\<close>

text \<open>The first opening marker of the document, read from the left.\<close>

fun find_opening_marker :: "string \<Rightarrow> pystr \<Rightarrow> pystr option" where
  "find_opening_marker script_id [] = after_opening_marker script_id []"
| "find_opening_marker script_id (c # cs) =
     (case after_opening_marker script_id (c # cs) of
        Some body \<Rightarrow> Some body
      | None \<Rightarrow> find_opening_marker script_id cs)"

text \<open>
  All characters up to, and not including, the next marker of the same kind (\<open><script\<close>)
  or an end-of-body marker (\<open></body>\<close>), or up to the end of the document.
\<close>

definition span_stop :: "pystr \<Rightarrow> bool" where
  "span_stop s \<longleftrightarrow> starts_nocase ''<script'' s \<or> starts_nocase ''</body>'' s"

fun captured_span :: "pystr \<Rightarrow> pystr" where
  "captured_span [] = []"
| "captured_span (c # cs) = (if span_stop (c # cs) then [] else c # captured_span cs)"

text \<open>Cut a text at the first occurrence of a token.\<close>

fun truncate_at :: "pystr \<Rightarrow> pystr \<Rightarrow> pystr" where
  "truncate_at w [] = []"
| "truncate_at w (c # cs) =
     (if take (length w) (c # cs) = w then [] else c # truncate_at w cs)"

definition spec_span :: "pystr \<Rightarrow> string \<Rightarrow> span" where
  "spec_span html_content script_id =
     (case find_opening_marker script_id html_content of
        None \<Rightarrow> NotFound
      | Some body \<Rightarrow>
          (let t = strip (truncate_at (lit ''</script>'') (captured_span body))
           in if t = [] then FoundEmpty else Content t))"

subsection \<open>The shape of an opening marker\<close>

text \<open>
  A piece of text is an opening marker for an identifier: \<open><script\<close>, whitespace,
  \<open>type="text/json"\<close>, whitespace, \<open>id="\<close>identifier\<open>"\<close>, further characters other than
  \<open>>\<close>, and \<open>>\<close>; letters are compared without regard to case.
\<close>

definition is_opening_marker :: "string \<Rightarrow> pystr \<Rightarrow> bool" where
  \<open>is_opening_marker script_id m \<longleftrightarrow>
     (\<exists>tag ws1 ty ws2 ida attrs.
        m = tag @ ws1 @ ty @ ws2 @ ida @ attrs @ [of_char CHR ''>''] \<and>
        list_all2 nocase_match ''<script'' tag \<and>
        ws1 \<noteq> [] \<and> list_all isspace ws1 \<and>
        list_all2 nocase_match ''type="text/json"'' ty \<and>
        ws2 \<noteq> [] \<and> list_all isspace ws2 \<and>
        list_all2 nocase_match (''id="'' @ script_id @ ''"'') ida \<and>
        of_char CHR ''>'' \<notin> set attrs)\<close>

text \<open>
  The stricter readings, for comparison: the two attributes in exactly the letters given
  (only the tag name free in case), and identifiers equal up to the case of their letters.
\<close>

definition skip_exact :: "string \<Rightarrow> pystr \<Rightarrow> pystr option" where
  "skip_exact w s = (if take (length w) s = lit w then Some (drop (length w) s) else None)"

definition after_exact_marker :: "string \<Rightarrow> pystr \<Rightarrow> pystr option" where
  \<open>after_exact_marker script_id s =
     Option.bind (skip_word ''<script'' s) (\<lambda>s.
     Option.bind (skip_spaces s) (\<lambda>s.
     Option.bind (skip_exact ''type="text/json"'' s) (\<lambda>s.
     Option.bind (skip_spaces s) (\<lambda>s.
     Option.bind (skip_exact (''id="'' @ script_id @ ''"'') s) skip_to_tag_end))))\<close>

fun find_exact_marker :: "string \<Rightarrow> pystr \<Rightarrow> pystr option" where
  "find_exact_marker script_id [] = after_exact_marker script_id []"
| "find_exact_marker script_id (c # cs) =
     (case after_exact_marker script_id (c # cs) of
        Some body \<Rightarrow> Some body
      | None \<Rightarrow> find_exact_marker script_id cs)"

definition same_letters :: "string \<Rightarrow> string \<Rightarrow> bool" where
  "same_letters a b \<longleftrightarrow> map lower a = map lower b"

section \<open>Auxiliary notions for the proofs\<close>

text \<open>
  What the lazy group and the lookahead of the opening pattern compute: the first suffix
  of the text behind the tag at which the lookahead holds, and the text before it.
\<close>

fun first_suffix :: "(pystr \<Rightarrow> bool) \<Rightarrow> pystr \<Rightarrow> pystr" where
  "first_suffix P [] = []"
| "first_suffix P (c # cs) = (if P (c # cs) then c # cs else first_suffix P cs)"

definition stop_or_end :: "pystr \<Rightarrow> bool" where
  "stop_or_end s \<longleftrightarrow> span_stop s \<or> s = [] \<or> s = [10]"

definition lazy_match :: "pystr \<Rightarrow> mstate" where
  "lazy_match body =
     \<lparr>rest = first_suffix stop_or_end body,
      group1 = Some (take (length body - length (first_suffix stop_or_end body)) body)\<rparr>"

text \<open>
  A small decoder for the examples, standing in for \<^verbatim>\<open>json.loads\<close>: it accepts the JSON
  numbers that are plain decimal numerals and nothing else.
\<close>

definition loads_digits :: "pystr \<Rightarrow> nat option" where
  "loads_digits s =
     (if s \<noteq> [] \<and> list_all (\<lambda>c. 48 \<le> c \<and> c \<le> 57) s \<and> (hd s \<noteq> 48 \<or> length s = 1)
      then Some (foldl (\<lambda>n c. 10 * n + (c - 48)) 0 s)
      else None)"


definition example_env :: "string \<Rightarrow> env" where
  "example_env bytes =
     \<lparr>files = (\<lambda>p. if p = ''trace.html'' then Some (File bytes)
                    else if p = ''/work'' then Some Directory else None),
      clock = ''2026-01-01T00:00:00'',
      path_name = (\<lambda>p. p),
      path_absolute = (\<lambda>p. ''/work/'' @ p)\<rparr>"



section \<open>Properties\<close>

subsection \<open>Output keys\<close>

lemma lower_underscore: "lower CHR ''_'' = CHR ''_''"
  by (simp add: lower_def isupper_def)

lemma camel_loop_pos:
  "0 < i \<Longrightarrow>
   camel_loop i cs =
     map lower (concat (map (\<lambda>x. if isupper x then [CHR ''_'', x] else [x]) cs))"
  by (induction cs arbitrary: i) (simp_all add: lower_underscore)

lemma camel_to_snake_words: "camel_to_snake s = map lower (separate_words s)"
  by (cases s) (simp_all add: camel_to_snake_def separate_words_def camel_loop_pos)

lemma output_keys:
  "map output_key JSON_SCRIPT_IDS =
     [''header'', ''entries'', ''queries'', ''shared_query_texts'', ''main_thread_profile'',
      ''aux_thread_profile'']"
  by code_simp

lemma normalized_keys:
  "map normalized_key JSON_SCRIPT_IDS =
     [''header'', ''entries'', ''queries'', ''shared_query_texts'', ''main_thread_profile'',
      ''aux_thread_profile'']"
  by code_simp

text \<open>
  C4. Key normalisation is a function of the identifier alone (a HOL function is total
  and has no effects). \<^verbatim>\<open>_camel_to_snake\<close> is, on every string, the two steps the
  specification words: a separator before every uppercase letter but the first character,
  then lowercase. On the six marker identifiers the key the loop computes
  (\<^verbatim>\<open>replace('Json', '')\<close>, then \<^verbatim>\<open>_camel_to_snake\<close>) is the key obtained by stripping the
  suffix \<open>Json\<close> and normalising; the three keys the specification names come out as it
  says.
\<close>

theorem key_normalization:
  "(\<forall>s. camel_to_snake s = map lower (separate_words s)) \<and>
   map output_key JSON_SCRIPT_IDS = map normalized_key JSON_SCRIPT_IDS \<and>
   output_key ''headerJson'' = ''header'' \<and>
   output_key ''sharedQueryTextsJson'' = ''shared_query_texts'' \<and>
   output_key ''mainThreadProfileJson'' = ''main_thread_profile''"
proof -
  have "output_key ''headerJson'' = ''header''" by code_simp
  moreover have "output_key ''sharedQueryTextsJson'' = ''shared_query_texts''" by code_simp
  moreover have "output_key ''mainThreadProfileJson'' = ''main_thread_profile''" by code_simp
  ultimately show ?thesis
    by (simp add: camel_to_snake_words output_keys normalized_keys)
qed

subsection \<open>The opening pattern, run by the matcher\<close>

lemma bt_nocase:
  "bt (nocase w) st k =
     (if starts_nocase w (rest st) then k (st\<lparr>rest := drop (length w) (rest st)\<rparr>) else None)"
proof (induction w arbitrary: st)
  case Nil
  then show ?case by (simp add: nocase_def cat_def)
next
  case (Cons p ps)
  have step: "bt (nocase (p # ps)) st k = bt (Atom (NoCase p)) st (\<lambda>st'. bt (nocase ps) st' k)"
    by (simp add: nocase_def cat_def)
  show ?case
  proof (cases "rest st")
    case Nil
    then show ?thesis by (simp add: step)
  next
    case (Cons c cs)
    then show ?thesis using Cons.IH by (simp add: step)
  qed
qed

lemma bt_word:
  "bt (Cat (nocase w) r) st k =
     (case skip_word w (rest st) of None \<Rightarrow> None | Some s \<Rightarrow> bt r (st\<lparr>rest := s\<rparr>) k)"
  by (simp add: bt_nocase skip_word_def)

lemma greedy_all:
  "(\<And>c cs. atom_match a c \<Longrightarrow> k (c # cs) = None) \<Longrightarrow>
   greedy a s k = k (dropWhile (atom_match a) s)"
  by (induction s) (auto split: option.splits)

lemma lazy_first:
  "(\<And>s'. k s' = (if P s' then Some (f s') else None)) \<Longrightarrow> P [] \<Longrightarrow>
   lazy AnyChar s k = Some (f (first_suffix P s))"
  by (induction s) auto

lemma space_not_word:
  "isspace c \<Longrightarrow> \<not> nocase_match CHR ''t'' c" "isspace c \<Longrightarrow> \<not> nocase_match CHR ''i'' c"
  by (auto simp: isspace_def nocase_match_def ascii_lower_def split: if_splits)

lemma nocase_gt: "nocase_match CHR ''>'' c \<longleftrightarrow> c = 62"
  by (auto simp: nocase_match_def ascii_lower_def split: if_splits)

lemma bt_spaces:
  assumes "\<And>c. isspace c \<Longrightarrow> \<not> nocase_match p c"
  shows "bt (Cat (Plus Space) (Cat (nocase (p # w)) r)) st k =
           (case skip_spaces (rest st) of
              None \<Rightarrow> None
            | Some s \<Rightarrow> bt (Cat (nocase (p # w)) r) (st\<lparr>rest := s\<rparr>) k)"
proof (cases "rest st")
  case Nil
  then show ?thesis by (simp add: skip_spaces_def)
next
  case (Cons c cs)
  let ?k = "\<lambda>s. bt (Cat (nocase (p # w)) r) (st\<lparr>rest := s\<rparr>) k"
  have fail: "\<And>c cs. atom_match Space c \<Longrightarrow> ?k (c # cs) = None"
    by (simp add: bt_nocase assms)
  have "greedy Space cs ?k = ?k (dropWhile (atom_match Space) cs)"
    by (rule greedy_all) (rule fail)
  moreover have "atom_match Space = isspace" by (rule ext) simp
  moreover have "bt (Cat (Plus Space) (Cat (nocase (p # w)) r)) st k =
      (if isspace c then greedy Space cs ?k else None)"
    using Cons by (simp del: bt.simps(2) add: bt.simps(2)[of "Plus Space"])
  ultimately show ?thesis using Cons by (simp add: skip_spaces_def del: bt.simps)
qed

lemma greedy_until_gt:
  "greedy (NotChar CHR ''>'') s
      (\<lambda>s'. case s' of [] \<Rightarrow> None | c # cs \<Rightarrow> if c = 62 then K cs else None) =
   (case dropWhile (\<lambda>c. c \<noteq> 62) s of [] \<Rightarrow> None | c # cs \<Rightarrow> K cs)"
  by (induction s) (auto split: option.splits)

lemma bt_tag_end:
  "bt (Cat (Star (NotChar CHR ''>'')) (Cat (Atom (NoCase CHR ''>'')) r)) st k =
     (case skip_to_tag_end (rest st) of None \<Rightarrow> None | Some s \<Rightarrow> bt r (st\<lparr>rest := s\<rparr>) k)"
proof -
  have "bt (Cat (Star (NotChar CHR ''>'')) (Cat (Atom (NoCase CHR ''>'')) r)) st k =
     greedy (NotChar CHR ''>'') (rest st)
       (\<lambda>s'. case s' of [] \<Rightarrow> None | c # cs \<Rightarrow> if c = 62 then bt r (st\<lparr>rest := cs\<rparr>) k else None)"
    by (simp add: nocase_gt cong: if_cong list.case_cong)
  also have "\<dots> = (case dropWhile (\<lambda>c. c \<noteq> 62) (rest st) of [] \<Rightarrow> None
                    | c # cs \<Rightarrow> bt r (st\<lparr>rest := cs\<rparr>) k)"
    by (rule greedy_until_gt)
  also have "\<dots> = (case skip_to_tag_end (rest st) of None \<Rightarrow> None
                    | Some s \<Rightarrow> bt r (st\<lparr>rest := s\<rparr>) k)"
    by (cases "dropWhile (\<lambda>c. c \<noteq> 62) (rest st)") (simp_all add: skip_to_tag_end_def del: dropWhile_eq_Nil_conv)
  finally show ?thesis .
qed

lemma bt_lookahead:
  "bt (Lookahead (Alt (nocase ''<script'') (Alt (nocase ''</body>'') Dollar))) st k =
     (if stop_or_end (rest st) then k st else None)"
  by (simp add: bt_nocase stop_or_end_def span_stop_def)

lemma bt_group_lazy:
  "bt (Cat (Group (LazyStar AnyChar))
        (Cat (Lookahead (Alt (nocase ''<script'') (Alt (nocase ''</body>'') Dollar))) Empty))
      \<lparr>rest = body, group1 = g\<rparr> Some = Some (lazy_match body)"
proof -
  let ?f = "\<lambda>s. \<lparr>rest = s, group1 = Some (take (length body - length s) body)\<rparr>"
  have "bt (Cat (Group (LazyStar AnyChar))
        (Cat (Lookahead (Alt (nocase ''<script'') (Alt (nocase ''</body>'') Dollar))) Empty))
      \<lparr>rest = body, group1 = g\<rparr> Some =
     lazy AnyChar body (\<lambda>s. if stop_or_end s then Some (?f s) else None)"
    by (simp add: bt_lookahead del: bt.simps(8) cong: if_cong)
  also have "\<dots> = Some (?f (first_suffix stop_or_end body))"
    by (rule lazy_first) (simp_all add: stop_or_end_def)
  finally show ?thesis by (simp add: lazy_match_def)
qed

lemma bt_chain:
  assumes p: "\<And>c. isspace c \<Longrightarrow> \<not> nocase_match p c"
      and q: "\<And>c. isspace c \<Longrightarrow> \<not> nocase_match q c"
  shows "bt (Cat (nocase w0) (Cat (Plus Space) (Cat (nocase (p # w1)) (Cat (Plus Space)
            (Cat (nocase (q # w2)) (Cat (Star (NotChar CHR ''>'')) (Cat (Atom (NoCase CHR ''>''))
            (Cat (Group (LazyStar AnyChar))
            (Cat (Lookahead (Alt (nocase ''<script'') (Alt (nocase ''</body>'') Dollar)))
               Empty)))))))))
          \<lparr>rest = s, group1 = None\<rparr> Some =
         map_option lazy_match
           (Option.bind (skip_word w0 s) (\<lambda>s.
            Option.bind (skip_spaces s) (\<lambda>s.
            Option.bind (skip_word (p # w1) s) (\<lambda>s.
            Option.bind (skip_spaces s) (\<lambda>s.
            Option.bind (skip_word (q # w2) s) skip_to_tag_end)))))"
proof -
  let ?tail = "Cat (Group (LazyStar AnyChar))
        (Cat (Lookahead (Alt (nocase ''<script'') (Alt (nocase ''</body>'') Dollar))) Empty)"
  let ?r5 = "Cat (nocase (q # w2)) (Cat (Star (NotChar CHR ''>'')) (Cat (Atom (NoCase CHR ''>'')) ?tail))"
  let ?r3 = "Cat (nocase (p # w1)) (Cat (Plus Space) ?r5)"
  let ?st = "\<lambda>s. \<lparr>rest = s, group1 = None\<rparr>"
  have e5: "bt ?r5 (?st s4) Some =
      map_option lazy_match (Option.bind (skip_word (q # w2) s4) skip_to_tag_end)" for s4
    by (simp only: bt_word bt_tag_end)
       (simp add: bt_group_lazy del: bt.simps split: option.splits)
  have e4: "bt (Cat (Plus Space) ?r5) (?st s3) Some =
      map_option lazy_match (Option.bind (skip_spaces s3) (\<lambda>s.
         Option.bind (skip_word (q # w2) s) skip_to_tag_end))" for s3
    by (simp only: bt_spaces[OF q]) (simp add: e5 del: bt.simps split: option.splits)
  have e3: "bt ?r3 (?st s2) Some =
      map_option lazy_match (Option.bind (skip_word (p # w1) s2) (\<lambda>s.
         Option.bind (skip_spaces s) (\<lambda>s.
         Option.bind (skip_word (q # w2) s) skip_to_tag_end)))" for s2
    by (simp only: bt_word) (simp add: e4 del: bt.simps split: option.splits)
  have e2: "bt (Cat (Plus Space) ?r3) (?st s1) Some =
      map_option lazy_match (Option.bind (skip_spaces s1) (\<lambda>s.
         Option.bind (skip_word (p # w1) s) (\<lambda>s.
         Option.bind (skip_spaces s) (\<lambda>s.
         Option.bind (skip_word (q # w2) s) skip_to_tag_end))))" for s1
    by (simp only: bt_spaces[OF p]) (simp add: e3 del: bt.simps split: option.splits)
  show ?thesis
    by (simp only: bt_word) (simp add: e2 del: bt.simps split: option.splits)
qed

lemma match_at_open:
  "match_at (open_pattern script_id) s = map_option lazy_match (after_opening_marker script_id s)"
  unfolding match_at_def open_pattern_def after_opening_marker_def cat_def
  using bt_chain[of "CHR ''t''" "CHR ''i''" "''<script''" "''ype=\"text/json\"''"
                    "''d=\"'' @ script_id @ ''\"''" s]
  by (simp add: space_not_word del: bt.simps)

lemma open_pattern_group:
  "re_search (open_pattern script_id) s = Some m \<Longrightarrow> group1 m \<noteq> None"
  by (induction s) (auto simp: match_at_open lazy_match_def split: option.splits)

lemma re_search_open:
  "re_search (open_pattern script_id) s =
     map_option lazy_match (find_opening_marker script_id s)"
  by (induction s) (simp_all add: match_at_open split: option.splits)

subsection \<open>The cleanup pattern and the trimmed span\<close>

lemma bt_exact:
  "bt (exact w) st k =
     (if take (length w) (rest st) = lit w then k (st\<lparr>rest := drop (length w) (rest st)\<rparr>)
      else None)"
proof (induction w arbitrary: st)
  case Nil
  then show ?case by (simp add: exact_def cat_def lit_def)
next
  case (Cons p ps)
  have step: "bt (exact (p # ps)) st k = bt (Atom (Exact p)) st (\<lambda>st'. bt (exact ps) st' k)"
    by (simp add: exact_def cat_def)
  show ?case
  proof (cases "rest st")
    case Nil
    then show ?thesis by (simp add: step lit_def)
  next
    case (Cons c cs)
    then show ?thesis using Cons.IH by (auto simp add: step lit_def)
  qed
qed

lemma greedy_any_end: "k [] \<noteq> None \<Longrightarrow> greedy AnyChar s k = k []"
  by (induction s) auto

lemma match_at_close:
  "match_at close_pattern s =
     (if take (length ''</script>'') s = lit ''</script>''
      then Some \<lparr>rest = [], group1 = None\<rparr> else None)"
  by (simp add: match_at_def close_pattern_def cat_def bt_exact greedy_any_end)

lemma re_sub_close: "re_sub_empty close_pattern s = truncate_at (lit ''</script>'') s"
proof (induction s)
  case Nil
  then show ?case by simp
next
  case (Cons c cs)
  show ?case using Cons by (simp add: match_at_close lit_def)
qed

lemma strip_spaces_left: "\<forall>c\<in>set ws. isspace c \<Longrightarrow> strip (ws @ x) = strip x"
  by (simp add: strip_def dropWhile_append2)

lemma strip_spaces_right: "\<forall>c\<in>set ws. isspace c \<Longrightarrow> strip (x @ ws) = strip x"
proof (induction x)
  case Nil
  then have "dropWhile isspace ws = []" by simp
  then show ?case by (simp add: strip_def del: dropWhile_eq_Nil_conv)
next
  case (Cons c x)
  show ?case
  proof (cases "isspace c")
    case True
    then show ?thesis using Cons by (simp add: strip_def)
  next
    case False
    have "dropWhile isspace (rev ws @ y) = dropWhile isspace y" for y
      using Cons.prems by (intro dropWhile_append2) simp
    then show ?thesis using False by (simp add: strip_def)
  qed
qed

lemma strip_decompose:
  "\<exists>ws1 ws2. x = ws1 @ strip x @ ws2 \<and> (\<forall>c\<in>set ws1. isspace c) \<and> (\<forall>c\<in>set ws2. isspace c)"
proof -
  let ?x1 = "dropWhile isspace x"
  have a: "x = takeWhile isspace x @ ?x1" by simp
  have b: "?x1 = strip x @ rev (takeWhile isspace (rev ?x1))"
    unfolding strip_def by (metis rev_append rev_rev_ident takeWhile_dropWhile_id)
  have "x = takeWhile isspace x @ strip x @ rev (takeWhile isspace (rev ?x1))"
    using a b by metis
  moreover have "\<forall>c\<in>set (takeWhile isspace x). isspace c"
    by (auto dest: set_takeWhileD)
  moreover have "\<forall>c\<in>set (rev (takeWhile isspace (rev ?x1))). isspace c"
    by (auto dest: set_takeWhileD)
  ultimately show ?thesis by blast
qed

lemma truncate_space:
  "\<forall>c\<in>set w. \<not> isspace c \<Longrightarrow> w \<noteq> [] \<Longrightarrow> isspace c \<Longrightarrow>
   truncate_at w (c # x) = c # truncate_at w x"
  by (cases w) auto

lemma truncate_spaces_left:
  "\<forall>c\<in>set w. \<not> isspace c \<Longrightarrow> w \<noteq> [] \<Longrightarrow> \<forall>c\<in>set ws. isspace c \<Longrightarrow>
   truncate_at w (ws @ x) = ws @ truncate_at w x"
proof (induction ws)
  case Nil
  then show ?case by simp
next
  case (Cons a ws)
  then have "truncate_at w (a # ws @ x) = a # truncate_at w (ws @ x)"
    using truncate_space[of w a "ws @ x"] by simp
  then show ?case using Cons by simp
qed

lemma truncate_snoc_space:
  assumes "\<forall>c\<in>set w. \<not> isspace c" "w \<noteq> []" "isspace c"
  shows "truncate_at w (x @ [c]) = truncate_at w x \<or>
         truncate_at w (x @ [c]) = truncate_at w x @ [c]"
proof (induction x)
  case Nil
  then show ?case using assms truncate_space[of w c "[]"] by simp
next
  case (Cons d xs)
  have same: "take (length w) (d # xs @ [c]) = w \<longleftrightarrow> take (length w) (d # xs) = w"
  proof (cases "length w \<le> length (d # xs)")
    case True
    then have "take (length w) ((d # xs) @ [c]) = take (length w) (d # xs)"
      by (subst take_append) simp
    then show ?thesis by simp
  next
    case False
    then have "take (length w) (d # xs @ [c]) = d # xs @ [c]" by simp
    moreover have "d # xs @ [c] \<noteq> w" using assms by auto
    moreover have "take (length w) (d # xs) \<noteq> w" using False
      by (auto dest!: arg_cong[where f = length])
    ultimately show ?thesis by simp
  qed
  show ?case using Cons same by auto
qed

lemma strip_truncate_right:
  assumes "\<forall>c\<in>set w. \<not> isspace c" "w \<noteq> []"
  shows "\<forall>c\<in>set ws. isspace c \<Longrightarrow>
         strip (truncate_at w (x @ ws)) = strip (truncate_at w x)"
proof (induction ws arbitrary: x)
  case Nil
  then show ?case by simp
next
  case (Cons c ws)
  have "strip (truncate_at w ((x @ [c]) @ ws)) = strip (truncate_at w (x @ [c]))"
    using Cons.IH[of "x @ [c]"] Cons.prems by simp
  moreover have "strip (truncate_at w (x @ [c])) = strip (truncate_at w x)"
    using truncate_snoc_space[OF assms, of c x] Cons.prems strip_spaces_right[of "[c]"]
    by auto
  ultimately show ?case by simp
qed

lemma strip_truncate_strip:
  assumes "\<forall>c\<in>set w. \<not> isspace c" "w \<noteq> []"
  shows "strip (truncate_at w (strip x)) = strip (truncate_at w x)"
proof -
  obtain ws1 ws2 where x: "x = ws1 @ strip x @ ws2"
    and ws1: "\<forall>c\<in>set ws1. isspace c" and ws2: "\<forall>c\<in>set ws2. isspace c"
    using strip_decompose by blast
  have "strip (truncate_at w (ws1 @ strip x @ ws2)) = strip (ws1 @ truncate_at w (strip x @ ws2))"
    by (simp add: truncate_spaces_left[OF assms ws1])
  also have "\<dots> = strip (truncate_at w (strip x @ ws2))"
    by (rule strip_spaces_left[OF ws1])
  also have "\<dots> = strip (truncate_at w (strip x))"
    by (rule strip_truncate_right[OF assms ws2])
  finally show ?thesis using x by simp
qed

lemma close_token: "\<forall>c\<in>set (lit ''</script>''). \<not> isspace c" "lit ''</script>'' \<noteq> []"
  by (simp_all add: lit_def isspace_def)

lemma first_suffix_length: "length (first_suffix P s) \<le> length s"
  by (induction s) auto

lemma captured_span_group:
  "captured_span body = group (lazy_match body) \<or>
   captured_span body = group (lazy_match body) @ [10]"
proof (induction body)
  case Nil
  then show ?case by (simp add: group_def lazy_match_def)
next
  case (Cons c cs)
  show ?case
  proof (cases "stop_or_end (c # cs)")
    case True
    then show ?thesis by (auto simp: group_def lazy_match_def stop_or_end_def)
  next
    case False
    then have "\<not> span_stop (c # cs)" by (simp add: stop_or_end_def)
    moreover have "Suc (length cs) - length (first_suffix stop_or_end cs)
        = Suc (length cs - length (first_suffix stop_or_end cs))"
      using first_suffix_length[of stop_or_end cs] by simp
    ultimately show ?thesis using Cons False by (auto simp: group_def lazy_match_def)
  qed
qed

lemma cleaned_content:
  "strip (re_sub_empty close_pattern (strip (group (lazy_match body)))) =
   strip (truncate_at (lit ''</script>'') (captured_span body))"
proof -
  let ?w = "lit ''</script>''"
  let ?g = "group (lazy_match body)"
  have "strip (truncate_at ?w (strip ?g)) = strip (truncate_at ?w ?g)"
    by (rule strip_truncate_strip[OF close_token])
  moreover have "strip (truncate_at ?w (captured_span body)) = strip (truncate_at ?w ?g)"
    using captured_span_group[of body] strip_truncate_right[OF close_token, of "[10]" ?g]
    by (auto simp: isspace_def)
  ultimately show ?thesis by (simp add: re_sub_close)
qed

lemma marker_content_spec: "marker_content html_content script_id = spec_span html_content script_id"
  by (simp add: marker_content_def spec_span_def re_search_open cleaned_content Let_def
           split: option.splits)

subsection \<open>Letter case and the shape of the opening marker\<close>

lemma of_char_lower: "of_char (lower p) = ascii_lower (of_char p)"
proof (cases "isupper p")
  case True
  then have "(of_char p :: nat) + 32 < 256" by (simp add: isupper_def)
  then show ?thesis using True by (simp add: lower_def ascii_lower_def isupper_def)
next
  case False
  then show ?thesis by (auto simp: lower_def ascii_lower_def isupper_def)
qed

lemma nocase_match_lower: "lower p = lower q \<Longrightarrow> nocase_match p c = nocase_match q c"
  using of_char_lower[of p] of_char_lower[of q] by (simp add: nocase_match_def)

lemma starts_nocase_letters:
  "map lower u = map lower v \<Longrightarrow> starts_nocase u s = starts_nocase v s"
proof (induction u s arbitrary: v rule: starts_nocase.induct)
  case (1 s)
  then show ?case by simp
next
  case (2 p ps)
  then show ?case by (cases v) simp_all
next
  case (3 p ps c cs)
  then obtain q qs where v: "v = q # qs" "lower p = lower q" "map lower ps = map lower qs"
    by (cases v) auto
  then show ?case using 3 nocase_match_lower[of p q c] by simp
qed

lemma skip_word_letters:
  "map lower u = map lower v \<Longrightarrow> skip_word u s = skip_word v s"
  using starts_nocase_letters[of u v s] map_eq_imp_length_eq[of lower u lower v]
  by (simp add: skip_word_def)

lemma after_opening_marker_letters:
  "same_letters a b \<Longrightarrow> after_opening_marker a s = after_opening_marker b s"
proof -
  assume "same_letters a b"
  then have "map lower (''id=\"'' @ a @ ''\"'') = map lower (''id=\"'' @ b @ ''\"'')"
    by (simp add: same_letters_def)
  then have "skip_word (''id=\"'' @ a @ ''\"'') = skip_word (''id=\"'' @ b @ ''\"'')"
    by (intro ext skip_word_letters)
  then show ?thesis by (simp only: after_opening_marker_def)
qed

lemma find_opening_marker_letters:
  "same_letters a b \<Longrightarrow> find_opening_marker a s = find_opening_marker b s"
  by (induction s) (simp_all add: after_opening_marker_letters[of a b] split: option.splits)



lemma starts_nocase_iff:
  "starts_nocase w s \<longleftrightarrow> (\<exists>t r. s = t @ r \<and> list_all2 nocase_match w t)"
proof (induction w s rule: starts_nocase.induct)
  case (1 s)
  then show ?case by simp
next
  case (2 p ps)
  then show ?case by (auto simp: list_all2_Cons1)
next
  case (3 p ps c cs)
  show ?case
  proof
    assume "starts_nocase (p # ps) (c # cs)"
    then obtain t r where "cs = t @ r" "list_all2 nocase_match ps t" "nocase_match p c"
      using 3 by auto
    then have "c # cs = (c # t) @ r \<and> list_all2 nocase_match (p # ps) (c # t)" by simp
    then show "\<exists>t r. c # cs = t @ r \<and> list_all2 nocase_match (p # ps) t" by blast
  next
    assume "\<exists>t r. c # cs = t @ r \<and> list_all2 nocase_match (p # ps) t"
    then obtain t r where tr: "c # cs = t @ r" "list_all2 nocase_match (p # ps) t" by blast
    then obtain t' where "t = c # t'" "cs = t' @ r" "nocase_match p c" "list_all2 nocase_match ps t'"
      by (auto simp: list_all2_Cons1)
    then show "starts_nocase (p # ps) (c # cs)" using 3 by auto
  qed
qed

lemma skip_word_iff:
  "skip_word w s = Some r \<longleftrightarrow> (\<exists>t. s = t @ r \<and> list_all2 nocase_match w t)"
proof
  assume "skip_word w s = Some r"
  then have st: "starts_nocase w s" and r: "r = drop (length w) s"
    by (auto simp: skip_word_def split: if_splits)
  then obtain t r' where tr: "s = t @ r'" "list_all2 nocase_match w t"
    using starts_nocase_iff by blast
  then have "length t = length w" by (simp add: list_all2_lengthD)
  then have "r = r'" using r tr by simp
  then show "\<exists>t. s = t @ r \<and> list_all2 nocase_match w t" using tr by blast
next
  assume "\<exists>t. s = t @ r \<and> list_all2 nocase_match w t"
  then obtain t where tr: "s = t @ r" "list_all2 nocase_match w t" by blast
  then have "length t = length w" by (simp add: list_all2_lengthD)
  moreover have "starts_nocase w s" using tr starts_nocase_iff by blast
  ultimately show "skip_word w s = Some r" using tr by (simp add: skip_word_def)
qed

lemma skip_spaces_iff:
  "skip_spaces s = Some r \<longleftrightarrow>
     (\<exists>ws. s = ws @ r \<and> ws \<noteq> [] \<and> list_all isspace ws \<and> (r = [] \<or> \<not> isspace (hd r)))"
proof
  assume "skip_spaces s = Some r"
  then obtain c cs where s: "s = c # cs" "isspace c" "r = dropWhile isspace cs"
    by (auto simp: skip_spaces_def split: list.splits if_splits)
  then have "s = (c # takeWhile isspace cs) @ r" by simp
  moreover have "list_all isspace (c # takeWhile isspace cs)"
    using s by (auto simp: list_all_iff dest: set_takeWhileD)
  moreover have "r = [] \<or> \<not> isspace (hd r)" using s hd_dropWhile[of isspace cs] by auto
  ultimately show "\<exists>ws. s = ws @ r \<and> ws \<noteq> [] \<and> list_all isspace ws \<and> (r = [] \<or> \<not> isspace (hd r))"
    by blast
next
  assume "\<exists>ws. s = ws @ r \<and> ws \<noteq> [] \<and> list_all isspace ws \<and> (r = [] \<or> \<not> isspace (hd r))"
  then obtain ws where ws: "s = ws @ r" "ws \<noteq> []" "list_all isspace ws" "r = [] \<or> \<not> isspace (hd r)"
    by blast
  then obtain c ws' where c: "ws = c # ws'" by (cases ws) auto
  have "dropWhile isspace (ws' @ r) = dropWhile isspace r"
    using ws c by (intro dropWhile_append2) (simp add: list_all_iff)
  moreover have "dropWhile isspace r = r" using ws(4) by (cases r) auto
  ultimately show "skip_spaces s = Some r" using ws c by (simp add: skip_spaces_def)
qed

lemma skip_to_tag_end_iff:
  "skip_to_tag_end s = Some r \<longleftrightarrow> (\<exists>attrs. s = attrs @ 62 # r \<and> 62 \<notin> set attrs)"
proof
  assume "skip_to_tag_end s = Some r"
  then obtain c where d: "dropWhile (\<lambda>c. c \<noteq> 62) s = c # r"
    by (auto simp: skip_to_tag_end_def split: list.splits)
  then have "c = 62" using hd_dropWhile[of "\<lambda>c. c \<noteq> 62" s] by auto
  then have "s = takeWhile (\<lambda>c. c \<noteq> 62) s @ 62 # r"
    using d takeWhile_dropWhile_id[of "\<lambda>c. c \<noteq> 62" s] by simp
  moreover have "62 \<notin> set (takeWhile (\<lambda>c. c \<noteq> 62) s)" by (auto dest: set_takeWhileD)
  ultimately show "\<exists>attrs. s = attrs @ 62 # r \<and> 62 \<notin> set attrs" by blast
next
  assume "\<exists>attrs. s = attrs @ 62 # r \<and> 62 \<notin> set attrs"
  then obtain attrs where a: "s = attrs @ 62 # r" "62 \<notin> set attrs" by blast
  then have "dropWhile (\<lambda>c. c \<noteq> 62) s = 62 # r"
    by (auto simp: dropWhile_append3)
  then show "skip_to_tag_end s = Some r" by (simp add: skip_to_tag_end_def)
qed

lemma after_opening_marker_iff:
  "after_opening_marker script_id s = Some body \<longleftrightarrow>
     (\<exists>m. s = m @ body \<and> is_opening_marker script_id m)"
proof
  assume "after_opening_marker script_id s = Some body"
  then obtain s1 s2 s3 s4 s5 where
      1: "skip_word ''<script'' s = Some s1" and 2: "skip_spaces s1 = Some s2"
      and 3: "skip_word ''type=\"text/json\"'' s2 = Some s3" and 4: "skip_spaces s3 = Some s4"
      and 5: "skip_word (''id=\"'' @ script_id @ ''\"'') s4 = Some s5"
      and 6: "skip_to_tag_end s5 = Some body"
    by (auto simp: after_opening_marker_def Option.bind_eq_Some_conv)
  from 1 obtain tag where tag: "s = tag @ s1" "list_all2 nocase_match ''<script'' tag"
    using skip_word_iff by blast
  from 2 obtain ws1 where ws1: "s1 = ws1 @ s2" "ws1 \<noteq> []" "list_all isspace ws1"
    using skip_spaces_iff by blast
  from 3 obtain ty where ty: "s2 = ty @ s3" "list_all2 nocase_match ''type=\"text/json\"'' ty"
    using skip_word_iff by blast
  from 4 obtain ws2 where ws2: "s3 = ws2 @ s4" "ws2 \<noteq> []" "list_all isspace ws2"
    using skip_spaces_iff by blast
  from 5 obtain ida where ida: "s4 = ida @ s5"
      "list_all2 nocase_match (''id=\"'' @ script_id @ ''\"'') ida"
    using skip_word_iff by blast
  from 6 obtain attrs where attrs: "s5 = attrs @ 62 # body" "62 \<notin> set attrs"
    using skip_to_tag_end_iff by blast
  have "s = (tag @ ws1 @ ty @ ws2 @ ida @ attrs @ [62]) @ body"
    using tag ws1 ty ws2 ida attrs by simp
  moreover have "is_opening_marker script_id (tag @ ws1 @ ty @ ws2 @ ida @ attrs @ [62])"
    unfolding is_opening_marker_def
    apply (rule exI[of _ tag], rule exI[of _ ws1], rule exI[of _ ty], rule exI[of _ ws2])
    apply (rule exI[of _ ida], rule exI[of _ attrs])
    using tag ws1 ty ws2 ida attrs by simp
  ultimately show "\<exists>m. s = m @ body \<and> is_opening_marker script_id m" by blast
next
  assume "\<exists>m. s = m @ body \<and> is_opening_marker script_id m"
  then obtain tag ws1 ty ws2 ida attrs where
      s: "s = tag @ ws1 @ ty @ ws2 @ ida @ attrs @ 62 # body"
      and tag: "list_all2 nocase_match ''<script'' tag"
      and ws1: "ws1 \<noteq> []" "list_all isspace ws1"
      and ty: "list_all2 nocase_match ''type=\"text/json\"'' ty"
      and ws2: "ws2 \<noteq> []" "list_all isspace ws2"
      and ida: "list_all2 nocase_match (''id=\"'' @ script_id @ ''\"'') ida"
      and attrs: "62 \<notin> set attrs"
    by (auto simp: is_opening_marker_def)
  obtain t ty' where ty': "ty = t # ty'" "nocase_match CHR ''t'' t"
    using ty by (auto simp: list_all2_Cons1)
  obtain i ida' where ida': "ida = i # ida'" "nocase_match CHR ''i'' i"
    using ida by (auto simp: list_all2_Cons1)
  have nt: "\<not> isspace t" and ni: "\<not> isspace i"
    using ty' ida' space_not_word by blast+
  have 1: "skip_word ''<script'' s = Some (ws1 @ ty @ ws2 @ ida @ attrs @ 62 # body)"
    using s tag skip_word_iff by blast
  have 2: "skip_spaces (ws1 @ ty @ ws2 @ ida @ attrs @ 62 # body) =
        Some (ty @ ws2 @ ida @ attrs @ 62 # body)"
    using ws1 ty' nt by (subst skip_spaces_iff) auto
  have 3: "skip_word ''type=\"text/json\"'' (ty @ ws2 @ ida @ attrs @ 62 # body) =
        Some (ws2 @ ida @ attrs @ 62 # body)"
    using ty skip_word_iff by blast
  have 4: "skip_spaces (ws2 @ ida @ attrs @ 62 # body) = Some (ida @ attrs @ 62 # body)"
    using ws2 ida' ni by (subst skip_spaces_iff) auto
  have 5: "skip_word (''id=\"'' @ script_id @ ''\"'') (ida @ attrs @ 62 # body) =
        Some (attrs @ 62 # body)"
    using ida skip_word_iff by blast
  have 6: "skip_to_tag_end (attrs @ 62 # body) = Some body"
    using attrs skip_to_tag_end_iff by blast
  show "after_opening_marker script_id s = Some body"
    unfolding after_opening_marker_def by (simp only: 1 2 3 4 5 6 Option.bind.simps)
qed

lemma find_opening_marker_iff:
  "find_opening_marker script_id s \<noteq> None \<longleftrightarrow>
     (\<exists>pre m body. s = pre @ m @ body \<and> is_opening_marker script_id m)"
proof (induction s)
  case Nil
  have "after_opening_marker script_id [] = None"
    by (simp add: after_opening_marker_def skip_word_def)
  moreover have "\<not> is_opening_marker script_id []"
    by (simp add: is_opening_marker_def)
  ultimately show ?case by simp
next
  case (Cons c cs)
  show ?case
  proof
    assume a: "find_opening_marker script_id (c # cs) \<noteq> None"
    show "\<exists>pre m body. c # cs = pre @ m @ body \<and> is_opening_marker script_id m"
    proof (cases "after_opening_marker script_id (c # cs)")
      case None
      then have "find_opening_marker script_id cs \<noteq> None" using a by simp
      then obtain pre m body where "cs = pre @ m @ body" "is_opening_marker script_id m"
        using Cons by blast
      then have "c # cs = (c # pre) @ m @ body \<and> is_opening_marker script_id m" by simp
      then show ?thesis by blast
    next
      case (Some body)
      then obtain m where "c # cs = [] @ m @ body \<and> is_opening_marker script_id m"
        using after_opening_marker_iff by auto
      then show ?thesis by blast
    qed
  next
    assume "\<exists>pre m body. c # cs = pre @ m @ body \<and> is_opening_marker script_id m"
    then obtain pre m body where p: "c # cs = pre @ m @ body" "is_opening_marker script_id m"
      by blast
    show "find_opening_marker script_id (c # cs) \<noteq> None"
    proof (cases pre)
      case Nil
      then have "after_opening_marker script_id (c # cs) = Some body"
        using p after_opening_marker_iff by auto
      then show ?thesis by simp
    next
      case (Cons d pre')
      then have "cs = pre' @ m @ body" using p by simp
      then have "find_opening_marker script_id cs \<noteq> None" using p Cons.IH by blast
      then show ?thesis by (auto split: option.splits)
    qed
  qed
qed

subsection \<open>Evaluating the span of a given document\<close>

text \<open>
  A concrete document is evaluated through the characterisation above. Only at a \<open><\<close> can
  an opening marker, a stop or the closing token begin, so every other character is passed
  over in one step.
\<close>

lemma find_skip:
  "c \<noteq> 60 \<Longrightarrow> find_opening_marker script_id (c # cs) = find_opening_marker script_id cs"
  by (simp add: after_opening_marker_def skip_word_def nocase_match_def ascii_lower_def)

lemma find_try:
  "find_opening_marker script_id (60 # cs) =
     (case after_opening_marker script_id (60 # cs) of
        Some body \<Rightarrow> Some body
      | None \<Rightarrow> find_opening_marker script_id cs)"
  by simp

lemma captured_skip: "c \<noteq> 60 \<Longrightarrow> captured_span (c # cs) = c # captured_span cs"
  by (simp add: span_stop_def nocase_match_def ascii_lower_def)

lemma captured_try:
  "captured_span (60 # cs) = (if span_stop (60 # cs) then [] else 60 # captured_span cs)"
  by simp

lemma truncate_skip:
  "c \<noteq> 60 \<Longrightarrow> truncate_at (60 # w) (c # cs) = c # truncate_at (60 # w) cs"
  by simp

lemma truncate_try:
  "truncate_at (60 # w) (60 # cs) =
     (if take (length w) cs = w then [] else 60 # truncate_at (60 # w) cs)"
  by simp

declare find_opening_marker.simps(2) [simp del]
declare captured_span.simps(2) [simp del]
declare truncate_at.simps(2) [simp del]

lemmas span_eval =
  marker_content_spec spec_span_def after_opening_marker_def skip_word_def skip_spaces_def
  skip_to_tag_end_def span_stop_def strip_def nocase_match_def ascii_lower_def lit_def
  isspace_def Let_def find_skip find_try captured_skip captured_try truncate_skip truncate_try




subsection \<open>The marker span\<close>

text \<open>
  C2. For every document and identifier, what the loop body obtains from the two regular
  expressions and the two calls of \<^verbatim>\<open>strip\<close> is what the specification words: find the
  first opening marker; take all characters behind it up to, and not including, the next
  \<open><script\<close>, a \<open></body>\<close>, or the end of the document; cut at the first \<open></script>\<close>; trim
  whitespace. When no opening marker is found, or the trimmed span is empty, the
  dictionary is left as it was and the loop goes on with the remaining identifiers.
\<close>

theorem span_extraction:
  "marker_content html_content script_id = spec_span html_content script_id \<and>
   (marker_content html_content script_id = NotFound \<or>
    marker_content html_content script_id = FoundEmpty \<longrightarrow>
      extract_marker loads html_content extracted script_id = extracted \<and>
      extract_markers loads html_content extracted (script_id # ids) =
        extract_markers loads html_content extracted ids)"
  by (auto simp: marker_content_spec extract_marker_def)

theorem span_extraction_witness:
  \<open>marker_content
      (lit ''<script type="text/json" id="entriesJson"> </script><script type="text/json" id="headerJson"> 7</script> </body>'')
      ''entriesJson'' = FoundEmpty \<and>
    extract_markers loads_digits
      (lit ''<script type="text/json" id="entriesJson"> </script><script type="text/json" id="headerJson"> 7</script> </body>'')
      [] [''entriesJson'', ''headerJson''] =
    extract_markers loads_digits
      (lit ''<script type="text/json" id="entriesJson"> </script><script type="text/json" id="headerJson"> 7</script> </body>'')
      [] [''headerJson'']\<close>
proof -
  let ?d = \<open>lit ''<script type="text/json" id="entriesJson"> </script><script type="text/json" id="headerJson"> 7</script> </body>''\<close>
  have e: "marker_content ?d ''entriesJson'' = FoundEmpty"
    by (simp add: span_eval)
  then show ?thesis
    using span_extraction[of ?d "''entriesJson''" loads_digits "[]" "[''headerJson'']"]
    by (simp del: extract_markers.simps)
qed

subsection \<open>Decoding and the raw fallback\<close>

lemma key_values:
  "output_key ''headerJson'' = ''header''"
  "output_key ''entriesJson'' = ''entries''"
  "output_key ''queriesJson'' = ''queries''"
  "output_key ''sharedQueryTextsJson'' = ''shared_query_texts''"
  "output_key ''mainThreadProfileJson'' = ''main_thread_profile''"
  "output_key ''auxThreadProfileJson'' = ''aux_thread_profile''"
  using output_keys by (simp_all add: JSON_SCRIPT_IDS_def)

lemma dict_get_set:
  "dict_get (dict_set d k v) k' = (if k' = k then Some v else dict_get d k')"
  by (induction d) (auto simp: dict_get_def)

lemma extract_marker_other:
  "k \<noteq> output_key script_id \<Longrightarrow> k \<noteq> output_key script_id @ ''_raw'' \<Longrightarrow>
   dict_get (extract_marker loads html_content d script_id) k = dict_get d k"
  by (simp add: extract_marker_def dict_get_set split: span.splits option.splits)

lemma extract_markers_other:
  "\<forall>script_id\<in>set ids. k \<noteq> output_key script_id \<and> k \<noteq> output_key script_id @ ''_raw'' \<Longrightarrow>
   dict_get (extract_markers loads html_content d ids) k = dict_get d k"
  by (induction ids arbitrary: d) (simp_all add: extract_marker_other)

lemma extract_markers_append:
  "extract_markers loads html_content d (xs @ ys) =
   extract_markers loads html_content (extract_markers loads html_content d xs) ys"
  by (induction xs arbitrary: d) simp_all

lemma extract_markers_keeps:
  assumes "\<And>d. dict_get (extract_marker loads html_content d script_id) k = Some v"
      and "\<forall>x\<in>set post. k \<noteq> output_key x \<and> k \<noteq> output_key x @ ''_raw''"
  shows "dict_get (extract_markers loads html_content d (pre @ script_id # post)) k = Some v"
  using assms by (simp add: extract_markers_append extract_markers_other)







subsection \<open>All six markers present\<close>



text \<open>
  The cleaned span and the content of a well-formed element: when the first opening marker
  is followed by a text without \<open><\<close> and then \<open></script>\<close>, the cleaned span is that text,
  trimmed. (A \<open><script\<close> or \<open></body>\<close> inside the element would end the span there.)
\<close>

lemma captured_span_plain: "60 \<notin> set J \<Longrightarrow> captured_span (J @ s) = J @ captured_span s"
  by (induction J) (simp_all add: captured_skip)

lemma captured_span_close:
  "captured_span (lit ''</script>'' @ s) = lit ''</script>'' @ captured_span s"
  by (simp add: lit_def captured_skip captured_try span_stop_def nocase_match_def ascii_lower_def)

lemma truncate_at_first: "w \<noteq> [] \<Longrightarrow> hd w \<notin> set J \<Longrightarrow> truncate_at w (J @ w @ s) = J"
proof (induction J)
  case Nil
  then show ?case by (cases w) (simp_all add: truncate_at.simps)
next
  case (Cons c J)
  then have "take (length w) (c # J @ w @ s) \<noteq> w" by (cases w) auto
  then show ?case using Cons by (simp add: truncate_at.simps)
qed

lemma element_content:
  assumes "find_opening_marker script_id html_content = Some (J @ lit ''</script>'' @ post)"
      and "60 \<notin> set J"
  shows "marker_content html_content script_id =
           (if strip J = [] then FoundEmpty else Content (strip J))"
proof -
  have "captured_span (J @ lit ''</script>'' @ post) = J @ lit ''</script>'' @ captured_span post"
    using assms(2) by (simp add: captured_span_plain captured_span_close)
  moreover have "truncate_at (lit ''</script>'') (J @ lit ''</script>'' @ captured_span post) = J"
    using assms(2) by (intro truncate_at_first) (simp_all add: lit_def)
  ultimately show ?thesis
    using assms(1) by (simp add: marker_content_spec spec_span_def)
qed



subsection \<open>The input file\<close>



text \<open>
  C9. For an existing file the text is first decoded as UTF-8. If that succeeds the
  extraction runs on the decoded text and latin-1 is not tried. If it fails, the file is
  read again as latin-1 and the run continues to a result instead of ending with the
  decoding error.
\<close>

theorem encoding_fallback:
  assumes "files e html_file_path = Some (File bytes)"
  shows "(\<forall>html_content. utf8_decode (map of_char bytes) = Some html_content \<longrightarrow>
            extract_from_file loads e html_file_path =
              ([Exists html_file_path, OpenRead html_file_path UTF8],
               Inr (combine e html_file_path
                      (extract_json_from_html loads (universal_newlines html_content))))) \<and>
         (utf8_decode (map of_char bytes) = None \<longrightarrow>
            extract_from_file loads e html_file_path =
              ([Exists html_file_path, OpenRead html_file_path UTF8,
                OpenRead html_file_path Latin1],
               Inr (combine e html_file_path
                      (extract_json_from_html loads
                         (universal_newlines (latin1_decode (map of_char bytes)))))))"
  using assms by (simp add: extract_from_file_def)

theorem encoding_fallback_witness:
  "files (example_env [CHR 0xE9]) ''trace.html'' = Some (File [CHR 0xE9]) \<and>
   utf8_decode (map of_char [CHR 0xE9]) = None \<and>
   extract_from_file loads_digits (example_env [CHR 0xE9]) ''trace.html'' =
     ([Exists ''trace.html'', OpenRead ''trace.html'' UTF8, OpenRead ''trace.html'' Latin1],
      Inr (combine (example_env [CHR 0xE9]) ''trace.html''
             (extract_json_from_html loads_digits [233])))"
proof -
  have f: "files (example_env [CHR 0xE9]) ''trace.html'' = Some (File [CHR 0xE9])"
    by (simp add: example_env_def)
  have u: "utf8_decode (map of_char [CHR 0xE9]) = None"
    by simp
  show ?thesis
    using encoding_fallback[OF f, of loads_digits] f u by (simp add: latin1_decode_def)
qed

subsection \<open>Letter case of the identifier\<close>

lemma same_letters_example: "same_letters ''HEADERJSON'' ''headerJson''"
  by code_simp

text \<open>
  C8 claims that a script region whose id differs from the marker identifier only in
  letter case is treated as absent. \<^verbatim>\<open>re.IGNORECASE\<close> applies to the whole pattern, the
  identifier included: the document below holds a region with the id \<open>HEADERJSON\<close>, and
  the search for \<open>headerJson\<close> finds it and stores its content under \<open>header\<close>.
\<close>

theorem identifier_case_counterexample:
  \<open>find_exact_marker ''HEADERJSON''
      (lit ''<script type="text/json" id="HEADERJSON">1</script>'') = Some (lit ''1</script>'') \<and>
    same_letters ''HEADERJSON'' ''headerJson'' \<and> ''HEADERJSON'' \<noteq> ''headerJson'' \<and>
    marker_content (lit ''<script type="text/json" id="HEADERJSON">1</script>'') ''headerJson'' =
      Content (lit ''1'') \<and>
    extract_json_from_html loads_digits
      (lit ''<script type="text/json" id="HEADERJSON">1</script>'') = [(''header'', Json 1)]\<close>
proof -
  let ?d = \<open>lit ''<script type="text/json" id="HEADERJSON">1</script>''\<close>
  have "find_exact_marker ''HEADERJSON'' ?d = Some (lit ''1</script>'')"
    by (simp add: span_eval after_exact_marker_def skip_exact_def)
  moreover have "same_letters ''HEADERJSON'' ''headerJson''"
    by (rule same_letters_example)
  moreover have "marker_content ?d ''headerJson'' = Content (lit ''1'')"
    by (simp add: span_eval)
  moreover have "extract_json_from_html loads_digits ?d = [(''header'', Json 1)]"
    by (simp add: span_eval extract_json_from_html_def JSON_SCRIPT_IDS_def extract_marker_def
          loads_digits_def key_values)
  ultimately show ?thesis by simp
qed

text \<open>
  C8, amended. Marker matching is case-insensitive on the whole opening marker, the
  identifier attribute included: two identifiers that differ only in the case of their
  letters select the same region of every document, with the same content.
\<close>

theorem identifier_case_insensitive:
  "same_letters script_id script_id' \<Longrightarrow>
   marker_content html_content script_id = marker_content html_content script_id'"
  by (simp add: marker_content_spec spec_span_def find_opening_marker_letters[of script_id script_id'])

theorem identifier_case_insensitive_witness:
  \<open>same_letters ''HEADERJSON'' ''headerJson'' \<and>
    marker_content (lit ''<script type="text/json" id="headerJson">1</script>'') ''HEADERJSON'' =
    marker_content (lit ''<script type="text/json" id="headerJson">1</script>'') ''headerJson''\<close>
proof -
  have s: "same_letters ''HEADERJSON'' ''headerJson''"
    by (rule same_letters_example)
  show ?thesis
    using identifier_case_insensitive[OF s] s by simp
qed

subsection \<open>The textual form of the opening marker\<close>

text \<open>
  C10 claims that a marker is recognised only when its attributes appear in the exact
  textual form \<open>type="text/json"\<close>, whitespace, \<open>id="\<close>identifier\<open>"\<close>. The letters of the
  attributes are matched without regard to case: the document below has no marker in the
  exact letters, and the marker is recognised all the same.
\<close>

theorem marker_form_counterexample:
  \<open>find_exact_marker ''headerJson''
      (lit ''<script TYPE="TEXT/JSON" ID="headerJson">1</script>'') = None \<and>
    marker_content (lit ''<script TYPE="TEXT/JSON" ID="headerJson">1</script>'') ''headerJson'' =
      Content (lit ''1'')\<close>
proof -
  let ?d = \<open>lit ''<script TYPE="TEXT/JSON" ID="headerJson">1</script>''\<close>
  have "find_exact_marker ''headerJson'' ?d = None"
    by (simp add: span_eval after_exact_marker_def skip_exact_def)
  moreover have "marker_content ?d ''headerJson'' = Content (lit ''1'')"
    by (simp add: span_eval)
  ultimately show ?thesis by simp
qed

text \<open>
  C10, amended. A marker is recognised exactly when the document contains, letters taken
  without regard to case, \<open><script\<close>, whitespace, \<open>type="text/json"\<close>, whitespace,
  \<open>id="\<close>identifier\<open>"\<close>, any characters other than \<open>>\<close>, and \<open>>\<close>, the quotes being double
  quotes. In particular a marker element that lists the id before the type, that uses
  single quotes, or that has anything but whitespace between the tag name and the type
  attribute is treated as absent.
\<close>

theorem marker_recognition:
  \<open>(marker_content html_content script_id \<noteq> NotFound \<longleftrightarrow>
      (\<exists>pre m body. html_content = pre @ m @ body \<and> is_opening_marker script_id m)) \<and>
    marker_content (lit ''<script id="headerJson" type="text/json">1</script>'') ''headerJson'' =
      NotFound \<and>
    marker_content (lit ''<script type='text/json' id='headerJson'>1</script>'') ''headerJson'' =
      NotFound \<and>
    marker_content (lit ''<script defer type="text/json" id="headerJson">1</script>'')
      ''headerJson'' = NotFound\<close>
proof -
  have "marker_content html_content script_id \<noteq> NotFound \<longleftrightarrow>
        find_opening_marker script_id html_content \<noteq> None"
    by (simp add: marker_content_spec spec_span_def Let_def split: option.splits)
  then have "marker_content html_content script_id \<noteq> NotFound \<longleftrightarrow>
      (\<exists>pre m body. html_content = pre @ m @ body \<and> is_opening_marker script_id m)"
    by (simp only: find_opening_marker_iff)
  moreover have \<open>marker_content (lit ''<script id="headerJson" type="text/json">1</script>'')
      ''headerJson'' = NotFound\<close>
    by (simp add: span_eval)
  moreover have \<open>marker_content (lit ''<script type='text/json' id='headerJson'>1</script>'')
      ''headerJson'' = NotFound\<close>
    by (simp add: span_eval)
  moreover have \<open>marker_content (lit ''<script defer type="text/json" id="headerJson">1</script>'')
      ''headerJson'' = NotFound\<close>
    by (simp add: span_eval)
  ultimately show ?thesis by blast
qed

theorem marker_recognition_witness:
  \<open>is_opening_marker ''headerJson'' (lit ''<script type="text/json" id="headerJson">'') \<and>
    marker_content (lit ''<p><script type="text/json" id="headerJson">1'') ''headerJson'' \<noteq>
      NotFound\<close>
proof -
  have m: \<open>is_opening_marker ''headerJson'' (lit ''<script type="text/json" id="headerJson">'')\<close>
    unfolding is_opening_marker_def
    apply (rule exI[of _ "lit ''<script''"], rule exI[of _ "[32]"])
    apply (rule exI[of _ \<open>lit ''type="text/json"''\<close>], rule exI[of _ "[32]"])
    apply (rule exI[of _ \<open>lit ''id="headerJson"''\<close>], rule exI[of _ "[]"])
    by (simp add: lit_def nocase_match_def ascii_lower_def isspace_def)
  have \<open>lit ''<p><script type="text/json" id="headerJson">1'' =
        lit ''<p>'' @ lit ''<script type="text/json" id="headerJson">'' @ lit ''1''\<close>
    by (simp add: lit_def)
  then have \<open>\<exists>pre m body. lit ''<p><script type="text/json" id="headerJson">1'' = pre @ m @ body \<and>
      is_opening_marker ''headerJson'' m\<close>
    using m by blast
  then show ?thesis
    using m marker_recognition[of \<open>lit ''<p><script type="text/json" id="headerJson">1''\<close>
        "''headerJson''"]
    by blast
qed

end
